theory Spec2Isabelle
  imports Main "HOL-Library.Sublist"
begin

section \<open>Strings\<close>

text \<open>
  A string is a list of characters. A \<open>char\<close> holds a code point below 256, so a text
  with other characters is outside the model. Three characters cannot be written inside a
  string literal and get names.
\<close>

definition dquote :: char where
  "dquote = CHR 0x22"

definition backslash :: char where
  "backslash = CHR 0x5C"

definition newline :: char where
  "newline = CHR 0x0A"

datatype error =
    IndexError
  | ValueError
  | RecursionError
  | HostError string

text \<open>\<^verbatim>\<open>s.strip(chars)\<close> for a one-character \<^verbatim>\<open>chars\<close>: every leading and every trailing
  occurrence of the character is removed.\<close>

definition strip :: "char \<Rightarrow> string \<Rightarrow> string" where
  "strip c s = rev (dropWhile (\<lambda>x. x = c) (rev (dropWhile (\<lambda>x. x = c) s)))"

text \<open>\<^verbatim>\<open>s.index(c)\<close>: the position of the first occurrence, \<^verbatim>\<open>ValueError\<close> when there is
  none.\<close>

fun str_index :: "string \<Rightarrow> char \<Rightarrow> error + nat" where
  "str_index [] c = Inl ValueError"
| "str_index (x # xs) c =
     (if x = c then Inr 0
      else (case str_index xs c of Inl e \<Rightarrow> Inl e | Inr i \<Rightarrow> Inr (Suc i)))"

text \<open>\<^verbatim>\<open>t[i]\<close> on a tuple: \<^verbatim>\<open>IndexError\<close> out of range.\<close>

fun tuple_index :: "'a list \<Rightarrow> nat \<Rightarrow> error + 'a" where
  "tuple_index [] i = Inl IndexError"
| "tuple_index (x # xs) 0 = Inr x"
| "tuple_index (x # xs) (Suc i) = tuple_index xs i"

text \<open>\<^verbatim>\<open>s.replace(old, new)\<close> for a two-character \<^verbatim>\<open>old\<close>: the occurrences are replaced
  from left to right, without overlap.\<close>

fun replace2 :: "char \<times> char \<Rightarrow> string \<Rightarrow> string \<Rightarrow> string" where
  "replace2 old new (x # y # zs) =
     (if (x, y) = old then new @ replace2 old new zs else x # replace2 old new (y # zs))"
| "replace2 old new zs = zs"

section \<open>The attribute tokenizer\<close>

text \<open>
  \<^verbatim>\<open>TOKEN_REGEX\<close> is
  \<^verbatim>\<open>(\w+)=(?:(".*?")(?<!\\")|(\w+))(?:(?= )|$)\<close>, compiled without flags. The functions below
  are the backtracking matcher of \<^verbatim>\<open>re\<close> on this pattern, written out piece by piece.

  What \<^verbatim>\<open>\w\<close> matches depends on the interpreter that runs the module, and the source does
  not fix one. Under Python 2 a pattern compiled without \<^verbatim>\<open>LOCALE\<close> or \<^verbatim>\<open>UNICODE\<close> uses
  the engine's ASCII category: a character below 128 that is alphanumeric or the
  underscore. Under Python 3 a \<^verbatim>\<open>str\<close> pattern is Unicode-aware: \<^verbatim>\<open>\w\<close> matches every
  character that \<^verbatim>\<open>str.isalnum\<close> accepts and the underscore; \<open>is_word_unicode\<close> is this
  class on the characters below 256, the ones a \<open>char\<close> can hold. The matcher takes the
  class as its parameter \<open>w\<close>.
\<close>

definition is_word :: "char \<Rightarrow> bool" where
  "is_word c =
     (let n = (of_char c :: nat) in
      (48 \<le> n \<and> n \<le> 57) \<or> (65 \<le> n \<and> n \<le> 90) \<or> n = 95 \<or> (97 \<le> n \<and> n \<le> 122))"

definition is_word_unicode :: "char \<Rightarrow> bool" where
  "is_word_unicode c =
     (let n = (of_char c :: nat) in
      is_word c \<or> n \<in> set [170, 178, 179, 181, 185, 186, 188, 189, 190]
      \<or> (192 \<le> n \<and> n \<le> 214) \<or> (216 \<le> n \<and> n \<le> 246) \<or> 248 \<le> n)"

text \<open>The class \<^verbatim>\<open>[A-Za-z0-9_]\<close> that the specification gives for a name.\<close>

definition word_chars :: string where
  "word_chars = ''abcdefghijklmnopqrstuvwxyzABCDEFGHIJKLMNOPQRSTUVWXYZ0123456789_''"

text \<open>
  The end of a token, \<^verbatim>\<open>(?:(?= )|$)\<close>, read on the text that remains: the next character is
  a space (it is not consumed), or the text ends here, or only a final newline remains
  (\<^verbatim>\<open>$\<close> without \<^verbatim>\<open>MULTILINE\<close>).
\<close>

definition end_of_token :: "string \<Rightarrow> bool" where
  "end_of_token r =
     (case r of [] \<Rightarrow> True | c # cs \<Rightarrow> c = CHR '' '' \<or> (c = newline \<and> cs = []))"

text \<open>
  The quoted alternative \<^verbatim>\<open>(".*?")(?<!\\")\<close> after its opening quote. \<^verbatim>\<open>prev\<close> is the
  character before the current one and \<^verbatim>\<open>acc\<close> the text of group 2 so far. The lazy
  \<^verbatim>\<open>.*?\<close> stops at the first quote that is not preceded by a backslash (the look-behind)
  and is followed by the end of the token; any other character but a newline is taken by
  \<^verbatim>\<open>.\<close> and the scan goes on. The result is group 2 and the text after the match.
\<close>

fun quoted_value :: "char \<Rightarrow> string \<Rightarrow> string \<Rightarrow> (string \<times> string) option" where
  "quoted_value prev acc [] = None"
| "quoted_value prev acc (c # cs) =
     (if c = dquote \<and> prev \<noteq> backslash \<and> end_of_token cs then Some (acc @ [c], cs)
      else if c = newline then None
      else quoted_value c (acc @ [c]) cs)"

text \<open>
  One attempt to match the pattern at the start of \<^verbatim>\<open>xs\<close>: the three groups and the text
  after the match. A group that took no part is the empty string, as \<^verbatim>\<open>findall\<close> reports
  it. \<^verbatim>\<open>\w+\<close> is greedy, and a shorter run is followed by a word character, which is
  neither \<^verbatim>\<open>=\<close> nor the end of a token: only the longest run can match.
\<close>

definition match_at_with :: "(char \<Rightarrow> bool) \<Rightarrow> string \<Rightarrow> (string list \<times> string) option" where
  "match_at_with w xs =
     (let name = takeWhile w xs; r1 = dropWhile w xs in
      if name = [] then None
      else (case r1 of
          [] \<Rightarrow> None
        | e # r2 \<Rightarrow>
            if e \<noteq> CHR ''='' then None
            else (case r2 of
                [] \<Rightarrow> None
              | q # r3 \<Rightarrow>
                  if q = dquote then
                    (case quoted_value dquote [dquote] r3 of
                       None \<Rightarrow> None
                     | Some (g2, rest) \<Rightarrow> Some ([name, g2, []], rest))
                  else
                    (let word = takeWhile w r2; rest = dropWhile w r2 in
                     if word \<noteq> [] \<and> end_of_token rest then Some ([name, [], word], rest)
                     else None))))"

lemma quoted_value_shorter:
  "quoted_value prev acc cs = Some (g, rest) \<Longrightarrow> length rest < length cs"
  by (induction prev acc cs rule: quoted_value.induct) (auto split: if_splits)

lemma match_at_with_shorter:
  assumes "match_at_with w xs = Some (g, rest)"
  shows "length rest < length xs"
proof -
  from assms obtain r2 where r1: "dropWhile w xs = CHR ''='' # r2"
    by (auto simp: match_at_with_def Let_def split: if_splits list.splits)
  have le: "length (dropWhile w xs) \<le> length xs"
    by (rule length_dropWhile_le)
  from assms r1 have "length rest \<le> length r2"
    by (auto simp: match_at_with_def Let_def split: if_splits list.splits option.splits
        dest!: quoted_value_shorter intro: order.trans [OF length_dropWhile_le])
  with le r1 show ?thesis by simp
qed

text \<open>
  \<^verbatim>\<open>TOKEN_REGEX.findall(text)\<close>: the matches from left to right, without overlap. The
  search tries each start position in turn and goes on where the last match ended. The
  pattern looks behind only inside its own match, so the search is a function of the text
  that remains.
\<close>

function findall_with :: "(char \<Rightarrow> bool) \<Rightarrow> string \<Rightarrow> string list list" where
  "findall_with w xs =
     (case match_at_with w xs of
        Some (groups, rest) \<Rightarrow> groups # findall_with w rest
      | None \<Rightarrow> (case xs of [] \<Rightarrow> [] | c # cs \<Rightarrow> findall_with w cs))"
  by pat_completeness auto
termination
  by (relation "measure (\<lambda>(w, xs). length xs)") (auto dest: match_at_with_shorter)

text \<open>
  \<^verbatim>\<open>get_token_groups\<close>: the loop over the matches, appending
  \<^verbatim>\<open>(match[0], match[1].strip('"') if match[1] else match[2])\<close>.
\<close>

fun token_groups_loop ::
  "string list list \<Rightarrow> (string \<times> string) list \<Rightarrow> error + (string \<times> string) list" where
  "token_groups_loop [] token_groups = Inr token_groups"
| "token_groups_loop (m # ms) token_groups =
     (case tuple_index m 0 of
        Inl e \<Rightarrow> Inl e
      | Inr m0 \<Rightarrow>
          (case tuple_index m 1 of
             Inl e \<Rightarrow> Inl e
           | Inr m1 \<Rightarrow>
               (case (if m1 \<noteq> [] then Inr (strip dquote m1) else tuple_index m 2) of
                  Inl e \<Rightarrow> Inl e
                | Inr v \<Rightarrow> token_groups_loop ms (token_groups @ [(m0, v)]))))"

definition get_token_groups_with ::
  "(char \<Rightarrow> bool) \<Rightarrow> string \<Rightarrow> error + (string \<times> string) list" where
  "get_token_groups_with w text = token_groups_loop (findall_with w text) []"

text \<open>
  The module on Python 2, the interpreter its idiom is written for (\<^verbatim>\<open>basestring\<close>,
  \<^verbatim>\<open>u''\<close>): the matcher with the ASCII class.
\<close>

definition match_at :: "string \<Rightarrow> (string list \<times> string) option" where
  "match_at xs = match_at_with is_word xs"

definition findall :: "string \<Rightarrow> string list list" where
  "findall xs = findall_with is_word xs"

definition get_token_groups :: "string \<Rightarrow> error + (string \<times> string) list" where
  "get_token_groups text = get_token_groups_with is_word text"

section \<open>The host engine\<close>

text \<open>
  The template engine is not part of the module. Its objects are mutable and shared, so
  the model keeps them in a store: a context and a lazy variable are references into it.
\<close>

type_synonym cref = nat

type_synonym lref = nat

text \<open>A value bound in a context: a string of the host, or a \<^verbatim>\<open>LazyVariable\<close> object.\<close>

datatype val = Str string | Lazy lref

type_synonym frame = "string \<rightharpoonup> val"

text \<open>
  \<^verbatim>\<open>LazyVariable\<close>: the attributes \<^verbatim>\<open>_tag_library\<close>, \<^verbatim>\<open>_logic\<close>, \<^verbatim>\<open>_context\<close> set by
  \<^verbatim>\<open>__init__\<close>, and \<^verbatim>\<open>_cached_value\<close>, which does not exist (\<open>None\<close>) until \<^verbatim>\<open>resolve\<close>
  assigns it.
\<close>

record 't lazy_variable =
  lv_tag_library :: 't
  lv_logic :: string
  lv_context :: cref
  lv_cached_value :: "string option"

record 't state =
  contexts :: "cref \<Rightarrow> frame list"
  lazies :: "lref \<Rightarrow> 't lazy_variable"
  next_lazy :: lref

text \<open>
  Modelled from the spec: the context of the host engine, "a sequence of mapping frames;
  push() adds a new empty frame, pop() removes the top frame, lookups search frames
  top-down". The top frame is the last of the list. \<^verbatim>\<open>push\<close> returns the new frame, here
  its position, and \<^verbatim>\<open>frame_update\<close> is \<^verbatim>\<open>dict.update\<close> on the frame at a position.
\<close>

definition context_push :: "cref \<Rightarrow> 't state \<Rightarrow> nat \<times> 't state" where
  "context_push c s =
     (length (contexts s c), s\<lparr>contexts := (contexts s)(c := contexts s c @ [Map.empty])\<rparr>)"

definition frame_update :: "cref \<Rightarrow> nat \<Rightarrow> frame \<Rightarrow> 't state \<Rightarrow> 't state" where
  "frame_update c i m s =
     s\<lparr>contexts := (contexts s)(c := (contexts s c)[i := (contexts s c ! i) ++ m])\<rparr>"

definition context_pop :: "cref \<Rightarrow> 't state \<Rightarrow> 't state" where
  "context_pop c s = s\<lparr>contexts := (contexts s)(c := butlast (contexts s c))\<rparr>"

fun lookup_frames :: "frame list \<Rightarrow> string \<Rightarrow> val option" where
  "lookup_frames [] name = None"
| "lookup_frames (f # fs) name =
     (case f name of Some v \<Rightarrow> Some v | None \<Rightarrow> lookup_frames fs name)"

definition context_lookup :: "cref \<Rightarrow> string \<Rightarrow> 't state \<Rightarrow> val option" where
  "context_lookup c name s = lookup_frames (rev (contexts s c)) name"

text \<open>
  Modelled from the spec: \<^verbatim>\<open>mark_safe\<close>, the "mark as safe" operation of the host; it
  tags the string as pre-escaped and leaves its characters as they are.
\<close>

definition mark_safe :: "string \<Rightarrow> string" where
  "mark_safe v = v"

text \<open>
  Modelled from the spec: the nodes of the host engine, each with one capability,
  \<^verbatim>\<open>render(context) -> string\<close>. A text node renders its text. A variable node
  \<^verbatim>\<open>{{ name }}\<close> looks the name up and converts the value to a string, which for a lazy
  variable is its \<^verbatim>\<open>__str__\<close>; a name that is not bound renders the empty string, the
  default of the host. Every other node of
  the host is \<open>HostNode\<close>: any function of the context and the store, which returns a
  string or raises. \<open>TemplateVariableNode\<close> is the node of this module, with its body,
  the tag registry of its parser and its attribute list.
\<close>

datatype 't node =
    TextNode string
  | VariableNode string
  | HostNode "cref \<Rightarrow> 't state \<Rightarrow> (error + string) \<times> 't state"
  | TemplateVariableNode "'t node list" 't "(string \<times> string) list"

text \<open>
  Modelled from the spec: \<^verbatim>\<open>settings.TEMPLATE_DEBUG\<close> and the tokenizer and parser of the
  host. \<open>lex_parse debug tags text\<close> stands for
  \<^verbatim>\<open>lexer = lexer_class(text, StringOrigin(text)); parser = parser_class(lexer.tokenize());
  parser.tags = tags; parser.parse()\<close>, with the debug pair of classes when \<open>debug\<close> holds:
  a node list, or the error the host raises.
\<close>

record 't host =
  template_debug :: bool
  lex_parse :: "bool \<Rightarrow> 't \<Rightarrow> string \<Rightarrow> error + 't node list"

section \<open>LazyVariable\<close>

text \<open>\<^verbatim>\<open>logic.replace('{[', '{%').replace(']}', '%}')\<close>\<close>

definition replace_django_tags :: "string \<Rightarrow> string" where
  "replace_django_tags logic =
     replace2 (CHR '']'', CHR ''}'') ''%}'' (replace2 (CHR ''{'', CHR ''['') ''{%'' logic)"

text \<open>\<^verbatim>\<open>LazyVariable(logic, tag_library, context)\<close>: a new object in the store.\<close>

definition lazy_variable_init :: "string \<Rightarrow> 't \<Rightarrow> cref \<Rightarrow> 't state \<Rightarrow> lref \<times> 't state" where
  "lazy_variable_init logic tag_library c s =
     (next_lazy s,
      s\<lparr>lazies := (lazies s)(next_lazy s :=
           \<lparr>lv_tag_library = tag_library, lv_logic = replace_django_tags logic,
            lv_context = c, lv_cached_value = None\<rparr>),
        next_lazy := Suc (next_lazy s)\<rparr>)"

text \<open>
  \<^verbatim>\<open>_resolve_value\<close>. \<open>render_all\<close> is
  \<^verbatim>\<open>u''.join(node.render(context) for node in nodelist)\<close>, the rendering service of the
  host, taken as a parameter.
\<close>

definition resolve_value ::
  "'t host \<Rightarrow> ('t node list \<Rightarrow> cref \<Rightarrow> 't state \<Rightarrow> (error + string) \<times> 't state) \<Rightarrow>
     lref \<Rightarrow> cref \<Rightarrow> 't state \<Rightarrow> (error + string) \<times> 't state" where
  "resolve_value H render_all self c s =
     (case lex_parse H (template_debug H) (lv_tag_library (lazies s self))
             (lv_logic (lazies s self)) of
        Inl e \<Rightarrow> (Inl e, s)
      | Inr nodelist \<Rightarrow> render_all nodelist c s)"

text \<open>
  \<^verbatim>\<open>resolve\<close>: the \<^verbatim>\<open>try\<close> reads \<^verbatim>\<open>self._cached_value\<close>; the \<^verbatim>\<open>AttributeError\<close> of a
  missing attribute leads to \<^verbatim>\<open>value = self._cached_value = self._resolve_value(context)\<close>,
  whose own exceptions propagate.
\<close>

definition resolve ::
  "'t host \<Rightarrow> ('t node list \<Rightarrow> cref \<Rightarrow> 't state \<Rightarrow> (error + string) \<times> 't state) \<Rightarrow>
     lref \<Rightarrow> cref \<Rightarrow> 't state \<Rightarrow> (error + string) \<times> 't state" where
  "resolve H render_all self c s =
     (case lv_cached_value (lazies s self) of
        Some v \<Rightarrow> (Inr (mark_safe v), s)
      | None \<Rightarrow>
          (case resolve_value H render_all self c s of
             (Inl e, s') \<Rightarrow> (Inl e, s')
           | (Inr v, s') \<Rightarrow>
               (Inr (mark_safe v),
                s'\<lparr>lazies := (lazies s')(self := (lazies s' self)\<lparr>lv_cached_value := Some v\<rparr>)\<rparr>)))"

text \<open>\<^verbatim>\<open>__str__\<close>: \<^verbatim>\<open>self.resolve(self._context)\<close>\<close>

definition lazy_variable_str ::
  "'t host \<Rightarrow> ('t node list \<Rightarrow> cref \<Rightarrow> 't state \<Rightarrow> (error + string) \<times> 't state) \<Rightarrow>
     lref \<Rightarrow> 't state \<Rightarrow> (error + string) \<times> 't state" where
  "lazy_variable_str H render_all self s = resolve H render_all self (lv_context (lazies s self)) s"

section \<open>TemplateVariableNode\<close>

text \<open>
  \<^verbatim>\<open>managed_custom_context\<close>, up to its \<^verbatim>\<open>yield\<close>: the loop that fills
  \<^verbatim>\<open>variables_context\<close> with one new \<^verbatim>\<open>LazyVariable\<close> for each token, then the push and
  the update of the pushed frame.
\<close>

fun stage_variables ::
  "'t \<Rightarrow> cref \<Rightarrow> (string \<times> string) list \<Rightarrow> frame \<Rightarrow> 't state \<Rightarrow> frame \<times> 't state" where
  "stage_variables tags c [] variables_context s = (variables_context, s)"
| "stage_variables tags c ((variable_name, variable_logic) # toks) variables_context s =
     (case lazy_variable_init variable_logic tags c s of
        (l, s') \<Rightarrow> stage_variables tags c toks (variables_context(variable_name \<mapsto> Lazy l)) s')"

definition managed_custom_context_enter ::
  "'t \<Rightarrow> (string \<times> string) list \<Rightarrow> cref \<Rightarrow> 't state \<Rightarrow> 't state" where
  "managed_custom_context_enter tags toks c s =
     (case stage_variables tags c toks Map.empty s of
        (variables_context, s1) \<Rightarrow>
          (case context_push c s1 of
             (custom_context_dict, s2) \<Rightarrow> frame_update c custom_context_dict variables_context s2))"

text \<open>The \<^verbatim>\<open>finally\<close> clause: \<^verbatim>\<open>context.pop()\<close>\<close>

definition managed_custom_context_exit :: "cref \<Rightarrow> 't state \<Rightarrow> 't state" where
  "managed_custom_context_exit c s = context_pop c s"

text \<open>
  \<^verbatim>\<open>render\<close>: the body is rendered inside the \<^verbatim>\<open>with\<close> block. Whether it returns a
  string or raises, the \<^verbatim>\<open>finally\<close> clause runs, and then the string is returned or the
  exception goes on to the caller.
\<close>

definition template_variable_node_render ::
  "('t node list \<Rightarrow> cref \<Rightarrow> 't state \<Rightarrow> (error + string) \<times> 't state) \<Rightarrow>
     't node list \<Rightarrow> 't \<Rightarrow> (string \<times> string) list \<Rightarrow> cref \<Rightarrow> 't state \<Rightarrow>
     (error + string) \<times> 't state" where
  "template_variable_node_render render_all nodelist tags toks c s =
     (case render_all nodelist c (managed_custom_context_enter tags toks c s) of
        (r, s') \<Rightarrow> (r, managed_custom_context_exit c s'))"

text \<open>
  Rendering, with the engine's nodes and this module's tied together. A node that refers
  to a lazy variable renders the variable's own nodes, which may refer to it again: \<open>d\<close>
  is the depth of calls the interpreter still allows, and at depth \<open>0\<close> Python raises
  "maximum recursion depth exceeded", an exception like any other.
\<close>

fun render_node ::
  "'t host \<Rightarrow> nat \<Rightarrow> 't node \<Rightarrow> cref \<Rightarrow> 't state \<Rightarrow> (error + string) \<times> 't state"
and render_nodelist ::
  "'t host \<Rightarrow> nat \<Rightarrow> 't node list \<Rightarrow> cref \<Rightarrow> 't state \<Rightarrow> (error + string) \<times> 't state"
where
  "render_node H 0 n c s = (Inl RecursionError, s)"
| "render_node H (Suc d) (TextNode t) c s = (Inr t, s)"
| "render_node H (Suc d) (VariableNode name) c s =
     (case context_lookup c name s of
        None \<Rightarrow> (Inr [], s)
      | Some (Str v) \<Rightarrow> (Inr v, s)
      | Some (Lazy l) \<Rightarrow> lazy_variable_str H (render_nodelist H d) l s)"
| "render_node H (Suc d) (HostNode f) c s = f c s"
| "render_node H (Suc d) (TemplateVariableNode nodelist tags toks) c s =
     template_variable_node_render (render_nodelist H d) nodelist tags toks c s"
| "render_nodelist H d [] c s = (Inr [], s)"
| "render_nodelist H d (n # ns) c s =
     (case render_node H d n c s of
        (Inl e, s') \<Rightarrow> (Inl e, s')
      | (Inr out, s') \<Rightarrow>
          (case render_nodelist H d ns c s' of
             (Inl e, s'') \<Rightarrow> (Inl e, s'')
           | (Inr rest, s'') \<Rightarrow> (Inr (out @ rest), s'')))"

text \<open>
  \<^verbatim>\<open>do_variable\<close>. The parser belongs to the host: \<open>parser_parse\<close> is
  \<^verbatim>\<open>parser.parse(('endvariable',))\<close>, \<open>delete_first_token\<close> and \<open>parser_tags\<close> are the
  method and the attribute of these names. The node keeps the parser and reads its
  \<^verbatim>\<open>tags\<close> when it renders; the model keeps the tags.
\<close>

definition do_variable ::
  "('p \<Rightarrow> string list \<Rightarrow> (error + 't node list) \<times> 'p) \<Rightarrow> ('p \<Rightarrow> 'p) \<Rightarrow> ('p \<Rightarrow> 't) \<Rightarrow>
     'p \<Rightarrow> string \<Rightarrow> (error + 't node) \<times> 'p" where
  "do_variable parser_parse delete_first_token parser_tags parser token_text =
     (case str_index token_text (CHR '' '') of
        Inl e \<Rightarrow> (Inl e, parser)
      | Inr i \<Rightarrow>
          (case get_token_groups (drop (i + 1) token_text) of
             Inl e \<Rightarrow> (Inl e, parser)
           | Inr group_tokens \<Rightarrow>
               (case parser_parse parser [''endvariable''] of
                  (Inl e, p1) \<Rightarrow> (Inl e, p1)
                | (Inr nodelist, p1) \<Rightarrow>
                    (Inr (TemplateVariableNode nodelist (parser_tags (delete_first_token p1))
                            group_tokens),
                     delete_first_token p1))))"

section \<open>Nodes of the host that keep the frames\<close>





section \<open>A host and a store for the examples\<close>

text \<open>
  A host whose tokenizer and parser turn a text into one text node, and refuse the block
  tag \<^verbatim>\<open>{% bad %}\<close>; a store with one context of one empty frame and no lazy variable.
\<close>

definition example_host :: "unit host" where
  "example_host =
     \<lparr>template_debug = False,
      lex_parse = (\<lambda>debug tags text.
        if text = ''{% bad %}'' then Inl (HostError ''Invalid block tag: bad'')
        else Inr [TextNode text])\<rparr>"

definition example_state :: "unit state" where
  "example_state =
     \<lparr>contexts = (\<lambda>c. [Map.empty]),
      lazies = (\<lambda>l. \<lparr>lv_tag_library = (), lv_logic = [], lv_context = 0, lv_cached_value = None\<rparr>),
      next_lazy = 0\<rparr>"


text \<open>
  Rendering services that resolve the lazy variable \<open>0\<close> while that variable is being
  resolved, as a tag in its fragment does when it converts the variable to a string on its
  first rendering and renders \<^verbatim>\<open>!\<close> on the next: \<open>example_leaf_render\<close> is the rendering
  of the fragment inside the nested call, \<open>example_nested_render\<close> appends \<^verbatim>\<open>!\<close> to what
  the nested call returns, and \<open>example_nested_then_raise\<close> raises after the nested call.
\<close>

definition example_leaf_render ::
  "unit node list \<Rightarrow> cref \<Rightarrow> unit state \<Rightarrow> (error + string) \<times> unit state" where
  "example_leaf_render nodelist c s = (Inr ''!'', s)"

definition example_nested_render ::
  "unit node list \<Rightarrow> cref \<Rightarrow> unit state \<Rightarrow> (error + string) \<times> unit state" where
  "example_nested_render nodelist c s =
     (case resolve example_host example_leaf_render 0 c s of
        (Inl e, s') \<Rightarrow> (Inl e, s')
      | (Inr v, s') \<Rightarrow> (Inr (v @ ''!''), s'))"

definition example_nested_then_raise ::
  "unit node list \<Rightarrow> cref \<Rightarrow> unit state \<Rightarrow> (error + string) \<times> unit state" where
  "example_nested_then_raise nodelist c s =
     (case resolve example_host example_leaf_render 0 c s of
        (r, s') \<Rightarrow> (Inl (HostError ''boom''), s'))"

section \<open>Properties of the attribute tokenizer\<close>

declare findall_with.simps [simp del]

lemma is_word_iff: "is_word c \<longleftrightarrow> c \<in> set word_chars"
  by (cases c) (simp add: is_word_def word_chars_def Let_def; blast)

lemma quoted_value_sound:
  "quoted_value prev acc cs = Some (g2, rest) \<Longrightarrow> acc \<noteq> [] \<Longrightarrow> last acc = prev \<Longrightarrow>
     \<not> suffix [backslash, dquote] g2 \<and> last g2 = dquote \<and> length acc < length g2 \<and> prefix acc g2"
proof (induction prev acc cs rule: quoted_value.induct)
  case (1 prev acc)
  then show ?case by simp
next
  case (2 prev acc c cs)
  show ?case
  proof (cases "c = dquote \<and> prev \<noteq> backslash \<and> end_of_token cs")
    case True
    with 2 have g2: "g2 = acc @ [dquote]" by auto
    from True 2 have "last acc \<noteq> backslash" by simp
    with \<open>acc \<noteq> []\<close> have "\<not> suffix [backslash, dquote] (acc @ [dquote])"
      by (cases acc rule: rev_cases) (auto simp: suffix_def)
    with g2 show ?thesis by simp
  next
    case False
    with "2.prems" have nl: "c \<noteq> newline" and rec: "quoted_value c (acc @ [c]) cs = Some (g2, rest)"
      by (auto split: if_splits)
    from "2.IH" [OF False nl rec] have "\<not> suffix [backslash, dquote] g2 \<and> last g2 = dquote \<and> length (acc @ [c]) < length g2 \<and> prefix (acc @ [c]) g2"
      by simp
    then show ?thesis by (auto dest: append_prefixD)
  qed
qed

lemma match_at_with_groups:
  assumes "match_at_with w xs = Some (g, rest)"
  shows "\<exists>g2 g3. g = [takeWhile w xs, g2, g3] \<and> takeWhile w xs \<noteq> []
           \<and> (g2 \<noteq> [] \<longrightarrow> \<not> suffix [backslash, dquote] g2 \<and> hd g2 = dquote \<and> last g2 = dquote \<and> 2 \<le> length g2)"
proof -
  from assms obtain r2 where r1: "dropWhile w xs = CHR ''='' # r2" and ne: "takeWhile w xs \<noteq> []"
    by (auto simp: match_at_with_def Let_def split: if_splits list.splits)
  show ?thesis
  proof (cases r2)
    case Nil
    with assms r1 ne show ?thesis by (simp add: match_at_with_def Let_def)
  next
    case (Cons q r3)
    show ?thesis
    proof (cases "q = dquote")
      case True
      with assms r1 ne Cons obtain g2 where q: "quoted_value dquote [dquote] r3 = Some (g2, rest)"
        and g: "g = [takeWhile w xs, g2, []]"
        by (auto simp: match_at_with_def Let_def split: option.splits)
      from quoted_value_sound [OF q] have "\<not> suffix [backslash, dquote] g2 \<and> last g2 = dquote \<and> 1 < length g2 \<and> prefix [dquote] g2"
        by simp
      then have "\<not> suffix [backslash, dquote] g2 \<and> hd g2 = dquote \<and> last g2 = dquote \<and> 2 \<le> length g2"
        by (cases g2) (auto simp: Suc_le_eq)
      with g ne show ?thesis by simp
    next
      case False
      with assms r1 ne Cons show ?thesis
        by (auto simp: match_at_with_def Let_def split: if_splits)
    qed
  qed
qed

lemma findall_with_elem:
  "g \<in> set (findall_with w xs) \<Longrightarrow> \<exists>ys rest. match_at_with w ys = Some (g, rest)"
proof (induction w xs rule: findall_with.induct)
  case (1 w xs)
  note eq = findall_with.simps [of w xs]
  show ?case
  proof (cases "match_at_with w xs")
    case None
    with eq have skip: "findall_with w xs = (case xs of [] \<Rightarrow> [] | c # cs \<Rightarrow> findall_with w cs)"
      by simp
    show ?thesis
    proof (cases xs)
      case Nil
      with skip "1.prems" show ?thesis by simp
    next
      case (Cons c cs)
      with skip "1.prems" have "g \<in> set (findall_with w cs)" by simp
      from "1.IH"(1) [OF None Cons this] show ?thesis .
    qed
  next
    case (Some p)
    obtain groups rest where p: "p = (groups, rest)" by (cases p)
    with Some eq have "findall_with w xs = groups # findall_with w rest" by simp
    with "1.prems" have "g = groups \<or> g \<in> set (findall_with w rest)" by simp
    then show ?thesis
    proof
      assume "g = groups" with Some p show ?thesis by blast
    next
      assume "g \<in> set (findall_with w rest)"
      from "1.IH"(2) [OF Some p [symmetric] this] show ?thesis .
    qed
  qed
qed

lemma findall_with_length: "g \<in> set (findall_with w xs) \<Longrightarrow> length g = 3"
  by (auto dest!: findall_with_elem match_at_with_groups)

lemma token_groups_loop_total:
  "\<forall>m \<in> set ms. length m = 3 \<Longrightarrow>
   token_groups_loop ms acc =
     Inr (acc @ map (\<lambda>m. (m ! 0, if m ! 1 \<noteq> [] then strip dquote (m ! 1) else m ! 2)) ms)"
proof (induction ms arbitrary: acc)
  case Nil
  then show ?case by simp
next
  case (Cons m ms)
  from Cons.prems have "length m = 3" by simp
  then obtain a b c where m: "m = [a, b, c]"
    by (auto simp: numeral_3_eq_3 length_Suc_conv)
  from Cons.prems have "\<forall>m \<in> set ms. length m = 3" by simp
  from Cons.IH [OF this] m show ?case by (simp add: numeral_2_eq_2)
qed

lemma get_token_groups_with_eq:
  "get_token_groups_with w text =
     Inr (map (\<lambda>m. (m ! 0, if m ! 1 \<noteq> [] then strip dquote (m ! 1) else m ! 2)) (findall_with w text))"
  unfolding get_token_groups_with_def
  using token_groups_loop_total [of "findall_with w text" "[]"] findall_with_length by auto

lemma findall_with_no_match:
  "(\<forall>ys. suffix ys xs \<longrightarrow> match_at_with w ys = None) \<Longrightarrow> findall_with w xs = []"
proof (induction xs)
  case Nil
  then show ?case by (simp add: findall_with.simps [of w "[]"])
next
  case (Cons x xs)
  from Cons.prems have "match_at_with w (x # xs) = None" by (simp add: suffix_order.refl)
  moreover from Cons.prems have "\<forall>ys. suffix ys xs \<longrightarrow> match_at_with w ys = None"
    by (simp add: suffix_Cons)
  ultimately show ?case using Cons.IH by (simp add: findall_with.simps [of w "x # xs"])
qed

lemma findall_simps:
  "findall xs =
     (case match_at xs of
        Some (groups, rest) \<Rightarrow> groups # findall rest
      | None \<Rightarrow> (case xs of [] \<Rightarrow> [] | c # cs \<Rightarrow> findall cs))"
  unfolding findall_def match_at_def by (rule findall_with.simps)

lemma match_at_groups:
  assumes "match_at xs = Some (g, rest)"
  shows "\<exists>g2 g3. g = [takeWhile is_word xs, g2, g3] \<and> takeWhile is_word xs \<noteq> []
           \<and> (g2 \<noteq> [] \<longrightarrow> \<not> suffix [backslash, dquote] g2 \<and> hd g2 = dquote \<and> last g2 = dquote \<and> 2 \<le> length g2)"
  using assms unfolding match_at_def by (rule match_at_with_groups)

lemma findall_elem:
  "g \<in> set (findall xs) \<Longrightarrow> \<exists>ys rest. match_at ys = Some (g, rest)"
  unfolding findall_def match_at_def by (rule findall_with_elem)

lemma get_token_groups_eq:
  "get_token_groups text =
     Inr (map (\<lambda>m. (m ! 0, if m ! 1 \<noteq> [] then strip dquote (m ! 1) else m ! 2)) (findall text))"
  unfolding get_token_groups_def findall_def by (rule get_token_groups_with_eq)

lemma findall_no_match:
  "(\<forall>ys. suffix ys xs \<longrightarrow> match_at ys = None) \<Longrightarrow> findall xs = []"
  unfolding findall_def match_at_def by (rule findall_with_no_match)

text \<open>
  Claim C7. For every input string \<^verbatim>\<open>get_token_groups\<close> returns a list and raises nothing.
  When the pattern matches at no position of the text, the list is empty. A character at
  which no match starts is skipped without an error: the result is that of the text after
  it.
\<close>

theorem get_token_groups_never_raises:
  "(\<exists>toks. get_token_groups text = Inr toks)
   \<and> ((\<forall>ys. suffix ys text \<longrightarrow> match_at ys = None) \<longrightarrow> get_token_groups text = Inr [])
   \<and> (match_at (c # cs) = None \<longrightarrow> get_token_groups (c # cs) = get_token_groups cs)"
proof (intro conjI impI)
  show "\<exists>toks. get_token_groups text = Inr toks"
    by (simp add: get_token_groups_eq)
next
  assume "\<forall>ys. suffix ys text \<longrightarrow> match_at ys = None"
  then have "findall text = []" by (rule findall_no_match)
  then show "get_token_groups text = Inr []" by (simp add: get_token_groups_eq)
next
  assume "match_at (c # cs) = None"
  then have "findall (c # cs) = findall cs" by (simp add: findall_simps [of "c # cs"])
  then show "get_token_groups (c # cs) = get_token_groups cs"
    by (simp add: get_token_groups_eq)
qed

theorem get_token_groups_never_raises_witness:
  "get_token_groups ''!!!'' = Inr []
   \<and> get_token_groups ''!a=1'' = get_token_groups ''a=1''
   \<and> get_token_groups ''a=1 !!! b=2'' = Inr [(''a'', ''1''), (''b'', ''2'')]"
proof -
  have none: "\<forall>ys. suffix ys ''!!!'' \<longrightarrow> match_at ys = None"
    by (auto simp: suffix_Cons match_at_def match_at_with_def is_word_def)
  have skip: "match_at ''!a=1'' = None"
    by (simp add: match_at_def match_at_with_def is_word_def)
  have run: "get_token_groups ''a=1 !!! b=2'' = Inr [(''a'', ''1''), (''b'', ''2'')]"
    by code_simp
  from get_token_groups_never_raises [of "''!!!''" "CHR ''!''" "''a=1''"] none skip run
  show ?thesis by simp
qed

text \<open>
  Claim C8, as amended. For every input string and every word class \<open>w\<close> of the engine,
  the name of every pair that \<^verbatim>\<open>get_token_groups\<close> returns is a non-empty string of
  characters of \<open>w\<close>. Under Python 2 these are the characters of \<^verbatim>\<open>[A-Za-z0-9_]\<close>.
\<close>

theorem token_names_are_words:
  "(get_token_groups_with w text = Inr toks \<longrightarrow>
      (\<forall>(name, v) \<in> set toks. name \<noteq> [] \<and> (\<forall>ch \<in> set name. w ch)))
   \<and> (get_token_groups text = Inr toks \<longrightarrow>
      (\<forall>(name, v) \<in> set toks. name \<noteq> [] \<and> set name \<subseteq> set word_chars))"
proof -
  have names: "\<forall>(name, v) \<in> set toks. name \<noteq> [] \<and> (\<forall>ch \<in> set name. w ch)"
    if run: "get_token_groups_with w text = Inr toks" for w toks
  proof -
    from run have toks: "toks = map (\<lambda>m. (m ! 0, if m ! 1 \<noteq> [] then strip dquote (m ! 1) else m ! 2)) (findall_with w text)"
      by (simp add: get_token_groups_with_eq)
    have "m ! 0 \<noteq> [] \<and> (\<forall>ch \<in> set (m ! 0). w ch)" if "m \<in> set (findall_with w text)" for m
    proof -
      from that obtain ys rest where "match_at_with w ys = Some (m, rest)"
        by (blast dest: findall_with_elem)
      then obtain g2 g3 where "m = [takeWhile w ys, g2, g3]" "takeWhile w ys \<noteq> []"
        by (blast dest: match_at_with_groups)
      moreover have "\<forall>ch \<in> set (takeWhile w ys). w ch"
        by (auto dest: set_takeWhileD)
      ultimately show ?thesis by simp
    qed
    with toks show ?thesis by auto
  qed
  have "\<forall>(name, v) \<in> set toks. name \<noteq> [] \<and> set name \<subseteq> set word_chars"
    if "get_token_groups text = Inr toks"
    using names [of is_word toks] that by (auto simp: get_token_groups_def is_word_iff)
  with names show ?thesis by blast
qed

theorem token_names_are_words_witness:
  "get_token_groups ''a_1=x B2=y'' = Inr [(''a_1'', ''x''), (''B2'', ''y'')]
   \<and> set ''a_1'' \<subseteq> set word_chars \<and> set ''B2'' \<subseteq> set word_chars
   \<and> get_token_groups_with is_word_unicode [CHR 0xE9, CHR ''='', CHR ''1'']
       = Inr [([CHR 0xE9], ''1'')]
   \<and> is_word_unicode (CHR 0xE9)"
proof -
  have run: "get_token_groups ''a_1=x B2=y'' = Inr [(''a_1'', ''x''), (''B2'', ''y'')]"
    by code_simp
  have run3: "get_token_groups_with is_word_unicode [CHR 0xE9, CHR ''='', CHR ''1'']
       = Inr [([CHR 0xE9], ''1'')]"
    by code_simp
  from token_names_are_words [of is_word_unicode "[CHR 0xE9, CHR ''='', CHR ''1'']" "[([CHR 0xE9], ''1'')]"]
    run3 have "is_word_unicode (CHR 0xE9)" by simp
  moreover from token_names_are_words [of is_word "''a_1=x B2=y''" "[(''a_1'', ''x''), (''B2'', ''y'')]"]
    run have "set ''a_1'' \<subseteq> set word_chars \<and> set ''B2'' \<subseteq> set word_chars" by simp
  ultimately show ?thesis using run run3 by simp
qed

text \<open>
  The claim as it was stated fails on Python 3: in a text that starts with the letter e
  with an acute accent (code point 233) followed by \<^verbatim>\<open>=1\<close>, the accented letter is a word
  character, and the name returned is that letter, which is not in \<^verbatim>\<open>[A-Za-z0-9_]\<close>.
\<close>

theorem token_name_outside_ascii:
  "get_token_groups_with is_word_unicode [CHR 0xE9, CHR ''='', CHR ''1'']
     = Inr [([CHR 0xE9], ''1'')]
   \<and> \<not> set [CHR 0xE9] \<subseteq> set word_chars"
  by code_simp

text \<open>
  Claim C9. For every input string and every match of the pattern, group 2 is empty (the
  bare-word alternative matched) or it is the quoted text: it starts and ends with a
  double quote and does not end with a backslash followed by a quote. In the example the
  first candidate for the closing quote follows a backslash, and the match extends to the
  next one.
\<close>

theorem quoted_match_excludes_escaped_quote:
  "\<forall>g \<in> set (findall text). length g = 3 \<and>
      (g ! 1 \<noteq> [] \<longrightarrow> hd (g ! 1) = dquote \<and> last (g ! 1) = dquote
          \<and> \<not> suffix [backslash, dquote] (g ! 1))"
proof
  fix g assume "g \<in> set (findall text)"
  then obtain ys rest where "match_at ys = Some (g, rest)"
    by (blast dest: findall_elem)
  from match_at_groups [OF this] show "length g = 3 \<and>
      (g ! 1 \<noteq> [] \<longrightarrow> hd (g ! 1) = dquote \<and> last (g ! 1) = dquote
          \<and> \<not> suffix [backslash, dquote] (g ! 1))"
    by auto
qed

theorem quoted_match_excludes_escaped_quote_witness:
  "findall (''a='' @ [dquote] @ ''x'' @ [backslash, dquote] @ '' y'' @ [dquote])
     = [[''a'', [dquote] @ ''x'' @ [backslash, dquote] @ '' y'' @ [dquote], []]]
   \<and> \<not> suffix [backslash, dquote] ([dquote] @ ''x'' @ [backslash, dquote] @ '' y'' @ [dquote])"
proof -
  have run: "findall (''a='' @ [dquote] @ ''x'' @ [backslash, dquote] @ '' y'' @ [dquote])
     = [[''a'', [dquote] @ ''x'' @ [backslash, dquote] @ '' y'' @ [dquote], []]]"
    by code_simp
  from quoted_match_excludes_escaped_quote
    [of "''a='' @ [dquote] @ ''x'' @ [backslash, dquote] @ '' y'' @ [dquote]"] run
  show ?thesis by simp
qed

text \<open>
  Claim C3. The claim fails on the code. On the text \<^verbatim>\<open>a="say \"hi\""\<close> the pattern
  matches the whole text, so the text between the surrounding quotes is
  \<^verbatim>\<open>say \"hi\"\<close>, which ends with an escaped quote. \<^verbatim>\<open>strip('"')\<close> removes every
  trailing quote, and the value returned ends with the backslash: the quote of the escaped
  pair is lost.
\<close>

theorem strip_removes_escaped_trailing_quote:
  "findall (''a='' @ [dquote] @ ''say '' @ [backslash, dquote] @ ''hi'' @ [backslash, dquote] @ [dquote])
     = [[''a'', [dquote] @ ''say '' @ [backslash, dquote] @ ''hi'' @ [backslash, dquote] @ [dquote], []]]
   \<and> get_token_groups (''a='' @ [dquote] @ ''say '' @ [backslash, dquote] @ ''hi'' @ [backslash, dquote] @ [dquote])
     = Inr [(''a'', ''say '' @ [backslash, dquote] @ ''hi'' @ [backslash])]"
  by code_simp

section \<open>Properties of LazyVariable\<close>

lemmas render_defs =
  template_variable_node_render_def managed_custom_context_enter_def
  managed_custom_context_exit_def context_push_def context_pop_def frame_update_def
  context_lookup_def lazy_variable_init_def lazy_variable_str_def resolve_def
  resolve_value_def mark_safe_def replace_django_tags_def

text \<open>
  Claim C2, as amended. Let the first \<^verbatim>\<open>resolve\<close> of a lazy variable succeed with the
  string \<open>v\<close>. That call tokenizes and parses the fragment once, renders the node list
  once against the context it was given, and then writes \<open>v\<close> to the cache; when the
  rendering leaves the object as it was, this write is all that the call changes in the
  object. From then on, in every store where the object is as the first call left it,
  \<^verbatim>\<open>resolve\<close> returns \<open>v\<close> for every context argument and leaves the store as it is,
  whatever the host's tokenizer, parser and renderer would do: they are not called and
  the cache is not written.
\<close>

theorem resolve_memoized:
  assumes fresh: "lv_cached_value (lazies s self) = None"
    and first: "resolve H R self c s = (Inr v, s1)"
  shows "(\<exists>nodelist s0.
            lex_parse H (template_debug H) (lv_tag_library (lazies s self)) (lv_logic (lazies s self))
              = Inr nodelist
            \<and> R nodelist c s = (Inr v, s0)
            \<and> s1 = s0\<lparr>lazies := (lazies s0)(self := (lazies s0 self)\<lparr>lv_cached_value := Some v\<rparr>)\<rparr>
            \<and> (lazies s0 self = lazies s self \<longrightarrow>
                 lazies s1 self = (lazies s self)\<lparr>lv_cached_value := Some v\<rparr>))
         \<and> lv_cached_value (lazies s1 self) = Some v
         \<and> (\<forall>H' R' c' t. lazies t self = lazies s1 self \<longrightarrow> resolve H' R' self c' t = (Inr v, t))"
proof -
  from fresh first obtain nodelist s0
    where lp: "lex_parse H (template_debug H) (lv_tag_library (lazies s self)) (lv_logic (lazies s self))
              = Inr nodelist"
      and run: "R nodelist c s = (Inr v, s0)"
      and s1: "s1 = s0\<lparr>lazies := (lazies s0)(self := (lazies s0 self)\<lparr>lv_cached_value := Some v\<rparr>)\<rparr>"
    by (auto simp: resolve_def resolve_value_def mark_safe_def split: prod.splits sum.splits)
  from s1 have cached: "lv_cached_value (lazies s1 self) = Some v" by simp
  from s1 have once: "lazies s0 self = lazies s self \<longrightarrow>
                 lazies s1 self = (lazies s self)\<lparr>lv_cached_value := Some v\<rparr>"
    by simp
  have "resolve H' R' self c' t = (Inr v, t)" if "lazies t self = lazies s1 self" for H' R' c' t
    using that cached by (simp add: resolve_def mark_safe_def)
  with lp run s1 once cached show ?thesis by blast
qed

theorem resolve_memoized_witness:
  "fst (resolve example_host (render_nodelist example_host 2) 0 0
          (snd (lazy_variable_init ''A'' () 0 example_state))) = Inr ''A''
   \<and> lazies (snd (resolve example_host (render_nodelist example_host 2) 0 0
          (snd (lazy_variable_init ''A'' () 0 example_state)))) 0
       = (lazies (snd (lazy_variable_init ''A'' () 0 example_state)) 0)\<lparr>lv_cached_value := Some ''A''\<rparr>
   \<and> fst (resolve example_host (\<lambda>ns c s. (Inl (HostError ''rendered again''), s)) 0 7
          (snd (resolve example_host (render_nodelist example_host 2) 0 0
             (snd (lazy_variable_init ''A'' () 0 example_state))))) = Inr ''A''"
proof -
  let ?s = "snd (lazy_variable_init ''A'' () 0 example_state)"
  let ?R = "render_nodelist example_host 2"
  let ?s1 = "snd (resolve example_host ?R 0 0 ?s)"
  have fresh: "lv_cached_value (lazies ?s 0) = None"
    by (simp add: lazy_variable_init_def example_state_def)
  have val: "fst (resolve example_host ?R 0 0 ?s) = Inr ''A''"
    by (simp add: render_defs example_state_def example_host_def numeral_2_eq_2)
  then have first: "resolve example_host ?R 0 0 ?s = (Inr ''A'', ?s1)"
    by (simp add: prod_eq_iff)
  note inst = resolve_memoized [OF fresh first]
  from inst obtain nodelist s0 where "?R nodelist 0 ?s = (Inr ''A'', s0)"
    and lp: "lex_parse example_host (template_debug example_host) (lv_tag_library (lazies ?s 0)) (lv_logic (lazies ?s 0))
              = Inr nodelist"
    and once: "lazies s0 0 = lazies ?s 0 \<longrightarrow> lazies ?s1 0 = (lazies ?s 0)\<lparr>lv_cached_value := Some ''A''\<rparr>"
    by blast
  moreover from lp have "nodelist = [TextNode ''A'']"
    by (simp add: example_host_def lazy_variable_init_def example_state_def replace_django_tags_def)
  ultimately have "lazies s0 0 = lazies ?s 0"
    by (auto simp: numeral_2_eq_2)
  with once have obj: "lazies ?s1 0 = (lazies ?s 0)\<lparr>lv_cached_value := Some ''A''\<rparr>" by simp
  from inst
  have "resolve example_host (\<lambda>ns c s. (Inl (HostError ''rendered again''), s)) 0 7 ?s1 = (Inr ''A'', ?s1)"
    by blast
  then have "fst (resolve example_host (\<lambda>ns c s. (Inl (HostError ''rendered again''), s)) 0 7 ?s1) = Inr ''A''"
    by (simp only: fst_conv)
  with val obj show ?thesis by (intro conjI)
qed

text \<open>
  The claim as it was stated fails where the rendering of the fragment resolves the same
  lazy variable: the first \<^verbatim>\<open>resolve\<close> succeeds with \<^verbatim>\<open>!!\<close>, and within it the nested call
  has evaluated the fragment too and written \<^verbatim>\<open>!\<close> to the cache, which the outer call then
  overwrites. The fragment is evaluated twice and the cache written twice.
\<close>

theorem nested_resolve_evaluates_twice:
  "lv_cached_value (lazies (snd (lazy_variable_init ''x'' () 0 example_state)) 0) = None
   \<and> fst (resolve example_host example_leaf_render 0 0
            (snd (lazy_variable_init ''x'' () 0 example_state))) = Inr ''!''
   \<and> lv_cached_value (lazies (snd (example_nested_render [TextNode ''x''] 0
            (snd (lazy_variable_init ''x'' () 0 example_state)))) 0) = Some ''!''
   \<and> fst (resolve example_host example_nested_render 0 0
            (snd (lazy_variable_init ''x'' () 0 example_state))) = Inr ''!!''
   \<and> lv_cached_value (lazies (snd (resolve example_host example_nested_render 0 0
            (snd (lazy_variable_init ''x'' () 0 example_state)))) 0) = Some ''!!''"
  by (simp add: render_defs example_state_def example_host_def example_nested_render_def
      example_leaf_render_def)

text \<open>
  Claim C10, as amended. Let the first \<^verbatim>\<open>resolve\<close> of a lazy variable raise. Then
  \<^verbatim>\<open>resolve\<close> assigned nothing: when the tokenizer or the parser raised, the store is the
  one before the call and the cache is unset; when the rendering raised, the store is the
  one in which it raised. Whenever the cache is unset in that store, the next \<^verbatim>\<open>resolve\<close>
  evaluates the fragment again: it returns and caches its string when the evaluation
  succeeds, and raises again when it fails.
\<close>

theorem failed_resolve_leaves_cache_unset:
  assumes fresh: "lv_cached_value (lazies s self) = None"
    and failed: "resolve H R self c s = (Inl e, s1)"
  shows "(case lex_parse H (template_debug H) (lv_tag_library (lazies s self)) (lv_logic (lazies s self)) of
            Inl e' \<Rightarrow> e' = e \<and> s1 = s \<and> lv_cached_value (lazies s1 self) = None
          | Inr nodelist \<Rightarrow> R nodelist c s = (Inl e, s1))
         \<and> (lv_cached_value (lazies s1 self) = None \<longrightarrow>
              (\<forall>H' R' c'. resolve H' R' self c' s1 =
                 (case lex_parse H' (template_debug H') (lv_tag_library (lazies s1 self))
                         (lv_logic (lazies s1 self)) of
                    Inl e' \<Rightarrow> (Inl e', s1)
                  | Inr nodelist \<Rightarrow>
                      (case R' nodelist c' s1 of
                         (Inl e', s2) \<Rightarrow> (Inl e', s2)
                       | (Inr v, s2) \<Rightarrow>
                           (Inr (mark_safe v),
                            s2\<lparr>lazies := (lazies s2)(self := (lazies s2 self)\<lparr>lv_cached_value := Some v\<rparr>)\<rparr>)))))"
proof (intro conjI impI allI)
  from fresh failed
  show "case lex_parse H (template_debug H) (lv_tag_library (lazies s self)) (lv_logic (lazies s self)) of
            Inl e' \<Rightarrow> e' = e \<and> s1 = s \<and> lv_cached_value (lazies s1 self) = None
          | Inr nodelist \<Rightarrow> R nodelist c s = (Inl e, s1)"
    by (auto simp: resolve_def resolve_value_def split: prod.splits sum.splits)
next
  fix H' :: "'a host" and R' c'
  assume "lv_cached_value (lazies s1 self) = None"
  then show "resolve H' R' self c' s1 =
                 (case lex_parse H' (template_debug H') (lv_tag_library (lazies s1 self))
                         (lv_logic (lazies s1 self)) of
                    Inl e' \<Rightarrow> (Inl e', s1)
                  | Inr nodelist \<Rightarrow>
                      (case R' nodelist c' s1 of
                         (Inl e', s2) \<Rightarrow> (Inl e', s2)
                       | (Inr v, s2) \<Rightarrow>
                           (Inr (mark_safe v),
                            s2\<lparr>lazies := (lazies s2)(self := (lazies s2 self)\<lparr>lv_cached_value := Some v\<rparr>)\<rparr>)))"
    by (simp add: resolve_def resolve_value_def split: sum.splits)
qed

theorem failed_resolve_leaves_cache_unset_witness:
  "resolve example_host (render_nodelist example_host 2) 0 0
       (snd (lazy_variable_init ''{[ bad ]}'' () 0 example_state))
     = (Inl (HostError ''Invalid block tag: bad''), snd (lazy_variable_init ''{[ bad ]}'' () 0 example_state))
   \<and> lv_cached_value (lazies (snd (lazy_variable_init ''{[ bad ]}'' () 0 example_state)) 0) = None
   \<and> fst (resolve (example_host\<lparr>lex_parse := \<lambda>debug tags text. Inr [TextNode ''ok'']\<rparr>)
            (render_nodelist example_host 2) 0 0
            (snd (lazy_variable_init ''{[ bad ]}'' () 0 example_state))) = Inr ''ok''"
proof -
  let ?s = "snd (lazy_variable_init ''{[ bad ]}'' () 0 example_state)"
  let ?R = "render_nodelist example_host 2"
  let ?H' = "example_host\<lparr>lex_parse := \<lambda>debug tags text. Inr [TextNode ''ok'']\<rparr>"
  have fresh: "lv_cached_value (lazies ?s 0) = None"
    by (simp add: lazy_variable_init_def example_state_def)
  have lp: "lex_parse example_host (template_debug example_host) (lv_tag_library (lazies ?s 0)) (lv_logic (lazies ?s 0))
      = Inl (HostError ''Invalid block tag: bad'')"
    by (simp add: render_defs example_state_def example_host_def)
  with fresh have failed: "resolve example_host ?R 0 0 ?s = (Inl (HostError ''Invalid block tag: bad''), ?s)"
    by (simp add: resolve_def resolve_value_def)
  note inst = failed_resolve_leaves_cache_unset [OF fresh failed]
  from inst fresh
  have "resolve ?H' ?R 0 0 ?s =
          (case lex_parse ?H' (template_debug ?H') (lv_tag_library (lazies ?s 0)) (lv_logic (lazies ?s 0)) of
                    Inl e' \<Rightarrow> (Inl e', ?s)
                  | Inr nodelist \<Rightarrow>
                      (case ?R nodelist 0 ?s of
                         (Inl e', s2) \<Rightarrow> (Inl e', s2)
                       | (Inr v, s2) \<Rightarrow>
                           (Inr (mark_safe v),
                            s2\<lparr>lazies := (lazies s2)(0 := (lazies s2 0)\<lparr>lv_cached_value := Some v\<rparr>)\<rparr>)))"
    by blast
  then have "fst (resolve ?H' ?R 0 0 ?s) = Inr ''ok''"
    by (simp add: mark_safe_def numeral_2_eq_2)
  with failed fresh show ?thesis by simp
qed

text \<open>
  The claim as it was stated fails where the rendering of the fragment resolves the same
  lazy variable and raises afterwards: the first \<^verbatim>\<open>resolve\<close> raises, the cache holds the
  string of the nested call, and the next \<^verbatim>\<open>resolve\<close> returns that string without
  evaluating the fragment.
\<close>

theorem nested_resolve_survives_failure:
  "lv_cached_value (lazies (snd (lazy_variable_init ''x'' () 0 example_state)) 0) = None
   \<and> fst (resolve example_host example_nested_then_raise 0 0
            (snd (lazy_variable_init ''x'' () 0 example_state))) = Inl (HostError ''boom'')
   \<and> lv_cached_value (lazies (snd (resolve example_host example_nested_then_raise 0 0
            (snd (lazy_variable_init ''x'' () 0 example_state)))) 0) = Some ''!''
   \<and> fst (resolve example_host example_nested_then_raise 0 0
            (snd (resolve example_host example_nested_then_raise 0 0
               (snd (lazy_variable_init ''x'' () 0 example_state))))) = Inr ''!''"
  by (simp add: render_defs example_state_def example_host_def example_nested_then_raise_def
      example_leaf_render_def)

section \<open>Properties of TemplateVariableNode\<close>

lemma stage_variables_inv:
  "stage_variables tags c toks vc s = (vc', s') \<Longrightarrow>
     contexts s' = contexts s \<and> next_lazy s' = next_lazy s + length toks
     \<and> (\<forall>l<next_lazy s. lazies s' l = lazies s l)
     \<and> dom vc' = dom vc \<union> fst ` set toks
     \<and> (\<forall>name. case map_of (rev toks) name of
            None \<Rightarrow> vc' name = vc name
          | Some v \<Rightarrow> \<exists>l. next_lazy s \<le> l \<and> l < next_lazy s' \<and> vc' name = Some (Lazy l)
              \<and> lazies s' l = \<lparr>lv_tag_library = tags, lv_logic = replace_django_tags v,
                                lv_context = c, lv_cached_value = None\<rparr>)"
proof (induction toks arbitrary: vc s)
  case Nil
  then show ?case by simp
next
  case (Cons tok toks)
  obtain n lg where tok: "tok = (n, lg)" by (cases tok)
  define l0 where "l0 = next_lazy s"
  define s0 where "s0 = snd (lazy_variable_init lg tags c s)"
  have init: "lazy_variable_init lg tags c s = (l0, s0)"
    by (simp add: l0_def s0_def lazy_variable_init_def)
  have s0: "contexts s0 = contexts s" "next_lazy s0 = Suc (next_lazy s)"
    "\<forall>l. l \<noteq> l0 \<longrightarrow> lazies s0 l = lazies s l"
    "lazies s0 l0 = \<lparr>lv_tag_library = tags, lv_logic = replace_django_tags lg,
                                lv_context = c, lv_cached_value = None\<rparr>"
    by (simp_all add: s0_def l0_def lazy_variable_init_def)
  from Cons.prems tok init
  have rec: "stage_variables tags c toks (vc(n \<mapsto> Lazy l0)) s0 = (vc', s')" by simp
  note IH = Cons.IH [OF rec]
  have a: "contexts s' = contexts s" using IH s0 by simp
  have b: "next_lazy s' = next_lazy s + length (tok # toks)" using IH s0 by simp
  have c: "\<forall>l<next_lazy s. lazies s' l = lazies s l" using IH s0 by (simp add: l0_def)
  have d: "dom vc' = dom vc \<union> fst ` set (tok # toks)" using IH tok by auto
  have e: "case map_of (rev (tok # toks)) name of
            None \<Rightarrow> vc' name = vc name
          | Some v \<Rightarrow> \<exists>l. next_lazy s \<le> l \<and> l < next_lazy s' \<and> vc' name = Some (Lazy l)
              \<and> lazies s' l = \<lparr>lv_tag_library = tags, lv_logic = replace_django_tags v,
                                lv_context = c, lv_cached_value = None\<rparr>" for name
  proof -
    from IH have ih: "case map_of (rev toks) name of
            None \<Rightarrow> vc' name = (vc(n \<mapsto> Lazy l0)) name
          | Some v \<Rightarrow> \<exists>l. next_lazy s0 \<le> l \<and> l < next_lazy s' \<and> vc' name = Some (Lazy l)
              \<and> lazies s' l = \<lparr>lv_tag_library = tags, lv_logic = replace_django_tags v,
                                lv_context = c, lv_cached_value = None\<rparr>"
      by blast
    show ?thesis
    proof (cases "map_of (rev toks) name")
      case (Some v)
      with ih obtain l where "next_lazy s0 \<le> l" "l < next_lazy s'" "vc' name = Some (Lazy l)"
        "lazies s' l = \<lparr>lv_tag_library = tags, lv_logic = replace_django_tags v,
                                lv_context = c, lv_cached_value = None\<rparr>"
        by auto
      with s0 Some tok show ?thesis by (auto simp: map_add_def intro!: exI [of _ l])
    next
      case None
      with ih have keep: "vc' name = (vc(n \<mapsto> Lazy l0)) name" by simp
      show ?thesis
      proof (cases "name = n")
        case True
        from IH s0 have "lazies s' l0 = lazies s0 l0" "l0 < next_lazy s'" by (simp_all add: l0_def)
        with True None keep s0 tok show ?thesis
          by (auto simp: map_add_def l0_def intro!: exI [of _ "next_lazy s"])
      next
        case False
        with None keep tok show ?thesis by (simp add: map_add_def)
      qed
    qed
  qed
  from a b c d e show ?case by blast
qed

lemma enter_contexts:
  "\<exists>vars s1. stage_variables tags c toks Map.empty s = (vars, s1)
     \<and> contexts (managed_custom_context_enter tags toks c s) = (contexts s)(c := contexts s c @ [vars])
     \<and> lazies (managed_custom_context_enter tags toks c s) = lazies s1
     \<and> next_lazy (managed_custom_context_enter tags toks c s) = next_lazy s1"
proof -
  obtain vars s1 where st: "stage_variables tags c toks Map.empty s = (vars, s1)"
    by (cases "stage_variables tags c toks Map.empty s")
  from stage_variables_inv [OF st] have "contexts s1 = contexts s" by simp
  with st show ?thesis
    by (simp add: managed_custom_context_enter_def context_push_def frame_update_def)
qed





















text \<open>
  Claim C5. When \<open>v\<close> is the value of the last token named \<open>name\<close> in the attribute list,
  the frame that \<^verbatim>\<open>render\<close> pushes binds \<open>name\<close> to a lazy variable made from \<open>v\<close>, not yet
  resolved, and a lookup of \<open>name\<close> finds it. For the tag
  \<^verbatim>\<open>variable x="first" x="second"\<close> with the body \<^verbatim>\<open>{{ x }}\<close>, on a host that parses the
  text \<^verbatim>\<open>second\<close> into one text node, \<^verbatim>\<open>do_variable\<close> builds a node and the node renders
  \<^verbatim>\<open>second\<close> at every depth from 3 on.
\<close>

theorem last_write_wins:
  "(map_of (rev toks) name = Some v \<longrightarrow>
      (\<exists>l. last (contexts (managed_custom_context_enter tags toks c s) c) name = Some (Lazy l)
         \<and> context_lookup c name (managed_custom_context_enter tags toks c s) = Some (Lazy l)
         \<and> lv_logic (lazies (managed_custom_context_enter tags toks c s) l) = replace_django_tags v
         \<and> lv_cached_value (lazies (managed_custom_context_enter tags toks c s) l) = None))
   \<and> (parser_parse p [''endvariable''] = (Inr [VariableNode ''x''], p1)
        \<and> lex_parse H (template_debug H) (parser_tags (delete_first_token p1)) ''second''
            = Inr [TextNode ''second'']
      \<longrightarrow> (\<exists>node. do_variable parser_parse delete_first_token parser_tags p
                (''variable x='' @ [dquote] @ ''first'' @ [dquote] @ '' x='' @ [dquote] @ ''second'' @ [dquote])
              = (Inr node, delete_first_token p1)
            \<and> (\<forall>d. fst (render_node H (Suc (Suc (Suc d))) node c s) = Inr ''second'')))"
proof (intro conjI impI)
  assume last: "map_of (rev toks) name = Some v"
  from enter_contexts [of tags c toks s] obtain vars s1
    where st: "stage_variables tags c toks Map.empty s = (vars, s1)"
      and en: "contexts (managed_custom_context_enter tags toks c s) c = contexts s c @ [vars]"
      and lz: "lazies (managed_custom_context_enter tags toks c s) = lazies s1"
    by auto
  from stage_variables_inv [OF st] have "case map_of (rev toks) name of
            None \<Rightarrow> vars name = Map.empty name
          | Some v \<Rightarrow> \<exists>l. next_lazy s \<le> l \<and> l < next_lazy s1 \<and> vars name = Some (Lazy l)
              \<and> lazies s1 l = \<lparr>lv_tag_library = tags, lv_logic = replace_django_tags v,
                                lv_context = c, lv_cached_value = None\<rparr>"
    by blast
  with last obtain l where "vars name = Some (Lazy l)"
    "lazies s1 l = \<lparr>lv_tag_library = tags, lv_logic = replace_django_tags v,
                                lv_context = c, lv_cached_value = None\<rparr>"
    by auto
  with en lz show "\<exists>l. last (contexts (managed_custom_context_enter tags toks c s) c) name = Some (Lazy l)
         \<and> context_lookup c name (managed_custom_context_enter tags toks c s) = Some (Lazy l)
         \<and> lv_logic (lazies (managed_custom_context_enter tags toks c s) l) = replace_django_tags v
         \<and> lv_cached_value (lazies (managed_custom_context_enter tags toks c s) l) = None"
    by (auto simp: context_lookup_def)
next
  assume host: "parser_parse p [''endvariable''] = (Inr [VariableNode ''x''], p1)
        \<and> lex_parse H (template_debug H) (parser_tags (delete_first_token p1)) ''second''
            = Inr [TextNode ''second'']"
  let ?tags = "parser_tags (delete_first_token p1)"
  let ?node = "TemplateVariableNode [VariableNode ''x''] ?tags [(''x'', ''first''), (''x'', ''second'')]"
  have toks: "get_token_groups (''x='' @ [dquote] @ ''first'' @ [dquote] @ '' x='' @ [dquote] @ ''second'' @ [dquote])
      = Inr [(''x'', ''first''), (''x'', ''second'')]"
    by code_simp
  from host toks have parse: "do_variable parser_parse delete_first_token parser_tags p
                (''variable x='' @ [dquote] @ ''first'' @ [dquote] @ '' x='' @ [dquote] @ ''second'' @ [dquote])
              = (Inr ?node, delete_first_token p1)"
    by (simp add: do_variable_def)
  from host have "fst (render_node H (Suc (Suc (Suc d))) ?node c s) = Inr ''second''" for d
    by (simp add: render_defs)
  with parse show "\<exists>node. do_variable parser_parse delete_first_token parser_tags p
                (''variable x='' @ [dquote] @ ''first'' @ [dquote] @ '' x='' @ [dquote] @ ''second'' @ [dquote])
              = (Inr node, delete_first_token p1)
            \<and> (\<forall>d. fst (render_node H (Suc (Suc (Suc d))) node c s) = Inr ''second'')"
    by blast
qed

theorem last_write_wins_witness:
  "do_variable (\<lambda>p ends. (Inr [VariableNode ''x''], p)) (\<lambda>p. p) (\<lambda>p. ()) ()
       (''variable x='' @ [dquote] @ ''first'' @ [dquote] @ '' x='' @ [dquote] @ ''second'' @ [dquote])
     = (Inr (TemplateVariableNode [VariableNode ''x''] () [(''x'', ''first''), (''x'', ''second'')]), ())
   \<and> fst (render_node example_host (Suc (Suc (Suc 0)))
            (TemplateVariableNode [VariableNode ''x''] () [(''x'', ''first''), (''x'', ''second'')])
            0 example_state) = Inr ''second''
   \<and> context_lookup 0 ''x''
        (managed_custom_context_enter () [(''x'', ''first''), (''x'', ''second'')] 0 example_state)
      = Some (Lazy 1)
   \<and> lv_logic (lazies
        (managed_custom_context_enter () [(''x'', ''first''), (''x'', ''second'')] 0 example_state) 1)
      = ''second''"
proof -
  let ?toks = "[(''x'', ''first''), (''x'', ''second'')]"
  let ?node = "TemplateVariableNode [VariableNode ''x''] () ?toks :: unit node"
  let ?text = "''variable x='' @ [dquote] @ ''first'' @ [dquote] @ '' x='' @ [dquote] @ ''second'' @ [dquote]"
  note inst = last_write_wins [of ?toks "''x''" "''second''" "()" 0 example_state
      "\<lambda>p ends. (Inr [VariableNode ''x''], p)" "()" "()" example_host "\<lambda>p. ()" "\<lambda>p. p"]
  have lastv: "map_of (rev ?toks) ''x'' = Some ''second''" by simp
  have host: "lex_parse example_host (template_debug example_host) () ''second'' = Inr [TextNode ''second'']"
    by (simp add: example_host_def)
  have toks: "get_token_groups (''x='' @ [dquote] @ ''first'' @ [dquote] @ '' x='' @ [dquote] @ ''second'' @ [dquote])
      = Inr ?toks"
    by code_simp
  then have parse: "do_variable (\<lambda>p ends. (Inr [VariableNode ''x''], p)) (\<lambda>p. p) (\<lambda>p. ()) () ?text
      = (Inr ?node, ())"
    by (simp add: do_variable_def)
  from inst lastv host parse
  have run: "fst (render_node example_host (Suc (Suc (Suc 0))) ?node 0 example_state) = Inr ''second''"
    by simp
  have look: "context_lookup 0 ''x'' (managed_custom_context_enter () ?toks 0 example_state) = Some (Lazy 1)"
    by (simp add: render_defs example_state_def)
  from inst lastv look
  have "lv_logic (lazies (managed_custom_context_enter () ?toks 0 example_state) 1) = replace_django_tags ''second''"
    by simp
  then have logic: "lv_logic (lazies (managed_custom_context_enter () ?toks 0 example_state) 1) = ''second''"
    by (simp add: replace_django_tags_def)
  from parse run look logic show ?thesis by simp
qed

text \<open>
  Claim C4. The claim fails on the code. The contents of the tag \<^verbatim>\<open>{% variable %}\<close> are
  \<^verbatim>\<open>variable\<close>, without a space, and \<^verbatim>\<open>token_text.index(' ')\<close> raises \<^verbatim>\<open>ValueError\<close>: no node
  is built.
\<close>

theorem do_variable_without_attributes_raises:
  "do_variable parser_parse delete_first_token parser_tags p ''variable'' = (Inl ValueError, p)"
  by (simp add: do_variable_def)

end
